theory Spec2Isabelle
  imports Main "HOL-Library.Word"
begin

unbundle bit_operations_syntax

section \<open>Constants of cx88\_sdr.h\<close>

text \<open>
  Modelled from the spec: \<open>PAGE_SHIFT\<close> and \<open>PAGE_SIZE\<close> are macros of the kernel
  headers, which are not part of the driver's sources. The spec (section 3, Page) gives the
  hardware page size as 4096 bytes, so the shift is 12.
\<close>

definition PAGE_SHIFT :: nat where
  "PAGE_SHIFT = 12"

definition PAGE_SIZE :: nat where
  "PAGE_SIZE = 2 ^ PAGE_SHIFT"

definition RISC_WRITE :: "32 word" where
  "RISC_WRITE = 0x10000000"

definition RISC_JUMP :: "32 word" where
  "RISC_JUMP = 0x70000000"

definition RISC_SYNC :: "32 word" where
  "RISC_SYNC = 0x80000000"

definition CLUSTER_BUF_NUM :: nat where
  "CLUSTER_BUF_NUM = 8"

definition CLUSTER_BUF_SIZE :: nat where
  "CLUSTER_BUF_SIZE = 2048"

definition VBI_DMA_SIZE :: nat where
  "VBI_DMA_SIZE = 64 * 1024 * 1024"

definition VBI_DMA_PAGES :: nat where
  "VBI_DMA_PAGES = VBI_DMA_SIZE div 2 ^ PAGE_SHIFT"

definition VBI_DMA_BUF_NUM :: nat where
  "VBI_DMA_BUF_NUM = VBI_DMA_SIZE div CLUSTER_BUF_SIZE"

definition MO_PCI_INTMSK :: "32 word" where
  "MO_PCI_INTMSK = 0x200040"

definition MO_DMA24_PTR2 :: "32 word" where
  "MO_DMA24_PTR2 = 0x3000cc"

definition MO_DMA24_CNT1 :: "32 word" where
  "MO_DMA24_CNT1 = 0x30010c"

definition MO_DMA24_CNT2 :: "32 word" where
  "MO_DMA24_CNT2 = 0x30014c"

definition CX_SRAM_BASE :: "32 word" where
  "CX_SRAM_BASE = 0x180000"

definition CHN24_CMDS_BASE :: "32 word" where
  "CHN24_CMDS_BASE = 0x180100"

definition RISC_INST_QUEUE :: "32 word" where
  "RISC_INST_QUEUE = CX_SRAM_BASE + 0x0800"

definition CDT_BASE :: "32 word" where
  "CDT_BASE = CX_SRAM_BASE + 0x1000"

definition CLUSTER_BUFFER_BASE :: "32 word" where
  "CLUSTER_BUFFER_BASE = CX_SRAM_BASE + 0x4000"

section \<open>The device structure\<close>

text \<open>
  The fields of \<open>struct cx88sdr_dev\<close> that the DMA program and the read path use.
  \<open>dma_addr_t\<close> is a 64-bit word; the driver truncates it to \<open>uint32_t\<close> wherever it
  hands an address to the card. The two page vectors are arrays of
  \<open>VBI_DMA_PAGES + 1\<close> entries, modelled as functions of the index; \<open>pgvec_virt\<close>
  holds the bytes of each page (page index, then offset inside the page).
\<close>

record cx88sdr_dev =
  risc_inst_phy :: "64 word"
  pgvec_phy :: "nat \<Rightarrow> 64 word"
  risc_inst_buff_size :: "32 word"
  initial_page :: "32 word"
  pgvec_virt :: "nat \<Rightarrow> nat \<Rightarrow> 8 word"

section \<open>cx88sdr\_make\_risc\_instructions\<close>

text \<open>
  The first control word of a page (\<open>RISC_WRITE | CLUSTER_BUF_SIZE | (3 << 26)\<close>) and the
  second one, which carries the interrupt bit 24 when \<open>irqt\<close> is 0 and the field at
  bit 16 that is 1 on every page but the last, where it is 3.
\<close>

definition risc_write1 :: "32 word" where
  "risc_write1 = RISC_WRITE OR of_nat CLUSTER_BUF_SIZE OR push_bit 26 3"

definition risc_write2 :: "int \<Rightarrow> nat \<Rightarrow> 32 word" where
  "risc_write2 irqt i =
     RISC_WRITE OR of_nat CLUSTER_BUF_SIZE OR push_bit 26 3
       OR push_bit 24 (if irqt = 0 then 1 else 0)
       OR push_bit 16 (if i < VBI_DMA_PAGES - 1 then 1 else 3)"

text \<open>
  The \<open>for\<close> loop over the pages. Each round increments \<open>irqt\<close>, masks it with
  \<open>0x1ff\<close>, and stores four words through \<open>pp\<close>; the model returns the words stored,
  in order.
\<close>

function risc_write_loop :: "cx88sdr_dev \<Rightarrow> nat \<Rightarrow> int \<Rightarrow> 32 word list" where
  "risc_write_loop dev i irqt =
     (if i < VBI_DMA_PAGES then
        (let irqt1 = (irqt + 1) AND 0x1ff;
             dma_addr = (ucast (pgvec_phy dev i) :: 32 word)
         in [risc_write1, dma_addr, risc_write2 irqt1 i, dma_addr + of_nat CLUSTER_BUF_SIZE]
              @ risc_write_loop dev (i + 1) irqt1)
      else [])"
  by pat_completeness auto
termination
  by (relation "measure (\<lambda>(dev, i, irqt). VBI_DMA_PAGES - i)") auto

declare risc_write_loop.simps [simp del]

definition cx88sdr_make_risc_instructions :: "cx88sdr_dev \<Rightarrow> 32 word list" where
  "cx88sdr_make_risc_instructions dev =
     (let loop_addr = (ucast (risc_inst_phy dev + 4) :: 32 word)
      in [RISC_SYNC OR push_bit 16 3] @ risc_write_loop dev 0 0 @ [RISC_JUMP, loop_addr])"

text \<open>
  \<open>cx88sdr_alloc_risc_inst_buffer\<close>: the size is stored before the allocation is tried;
  the argument is what \<open>dma_alloc_coherent\<close> returned, \<open>None\<close> for a failed allocation
  and otherwise the bus address of the buffer. The result is the return value
  (\<open>Inl ENOMEM\<close> or \<open>Inr 0\<close>) and the device.
\<close>

datatype errno = ENOMEM | EFAULT

definition cx88sdr_alloc_risc_inst_buffer ::
  "cx88sdr_dev \<Rightarrow> 64 word option \<Rightarrow> (errno + nat) \<times> cx88sdr_dev" where
  "cx88sdr_alloc_risc_inst_buffer dev a =
     (let dev1 = dev\<lparr>risc_inst_buff_size :=
                       of_nat (VBI_DMA_BUF_NUM * CLUSTER_BUF_NUM + PAGE_SIZE)\<rparr>
      in case a of
           None \<Rightarrow> (Inl ENOMEM, dev1)
         | Some phy \<Rightarrow> (Inr 0, dev1\<lparr>risc_inst_phy := phy\<rparr>))"

text \<open>
  The instructions of the card's RISC engine, as the spec names them. A \<open>Sync\<close> is one
  word with its argument. A \<open>Write\<close> has a length in bytes, the flags of bits 26 and 27,
  the interrupt request of bit 24 and the branch field at bit 16, and is followed by the
  address it transfers to; its first word carries the opcode \<open>RISC_WRITE\<close>. A
  \<open>Jump\<close> is the opcode word and the target.
\<close>

datatype risc_instr =
    Sync "32 word"
  | Write nat "32 word" bool "32 word" "32 word"
  | Jump "32 word"

fun risc_encode :: "risc_instr \<Rightarrow> 32 word list" where
  "risc_encode (Sync arg) = [RISC_SYNC OR arg]"
| "risc_encode (Write len flags irq branch addr) =
     [RISC_WRITE OR of_nat len OR push_bit 26 flags OR push_bit 24 (of_bool irq)
        OR push_bit 16 branch,
      addr]"
| "risc_encode (Jump target) = [RISC_JUMP, target]"

text \<open>
  The program of the spec for page \<open>i\<close>: two transfers of \<open>CLUSTER_BUF_SIZE\<close> bytes,
  to the bus address of the page and to that address plus \<open>CLUSTER_BUF_SIZE\<close>. The
  second one requests the interrupt on every 512th page and has the branch field 1, or 3 on
  the last page.
\<close>

definition page_writes :: "cx88sdr_dev \<Rightarrow> nat \<Rightarrow> risc_instr list" where
  "page_writes dev i =
     [Write CLUSTER_BUF_SIZE 3 False 0 (ucast (pgvec_phy dev i)),
      Write CLUSTER_BUF_SIZE 3 (Suc i mod 512 = 0) (if i < VBI_DMA_PAGES - 1 then 1 else 3)
            (ucast (pgvec_phy dev i) + of_nat CLUSTER_BUF_SIZE)]"

section \<open>The producer position\<close>

text \<open>
  \<open>cx88sdr_read\<close> turns the value of \<open>MO_VBI_GPCNT\<close> into the last page written with
  \<open>gp_cnt = (!gp_cnt) ? (VBI_DMA_PAGES - 1) : (gp_cnt - 1)\<close>, once before its loop and once
  after every poll.
\<close>

definition gp_cnt_last_page :: "32 word \<Rightarrow> 32 word" where
  "gp_cnt_last_page gp_cnt =
     (if gp_cnt = 0 then of_nat VBI_DMA_PAGES - 1 else gp_cnt - 1)"

section \<open>Register writes and cx88sdr\_sram\_setup\<close>

text \<open>
  \<open>mmio_iowrite32 (dev, reg, val)\<close> stores \<open>val\<close> at \<open>dev->mmio + (reg >> 2)\<close>, a
  pointer to 32-bit words. The model records each store as the byte offset into the register
  window and the value, and a function that writes registers returns its stores in order.
\<close>

type_synonym mmio_write = "32 word \<times> 32 word"

definition mmio_iowrite32 :: "32 word \<Rightarrow> 32 word \<Rightarrow> mmio_write" where
  "mmio_iowrite32 reg val = (push_bit 2 (drop_bit 2 reg), val)"

text \<open>
  The loop \<open>for (i = 0; i < numbuf; i++, buff += buffsize)\<close> that writes the cluster
  descriptor table.
\<close>

function sram_cdt_loop ::
  "32 word \<Rightarrow> 32 word \<Rightarrow> 32 word \<Rightarrow> nat \<Rightarrow> 32 word \<Rightarrow> mmio_write list" where
  "sram_cdt_loop numbuf buffsize cdt i buff =
     (if i < unat numbuf then
        mmio_iowrite32 (cdt + 16 * of_nat i) buff
          # sram_cdt_loop numbuf buffsize cdt (i + 1) (buff + buffsize)
      else [])"
  by pat_completeness auto
termination
  by (relation "measure (\<lambda>(numbuf, buffsize, cdt, i, buff). unat numbuf - i)") auto

declare sram_cdt_loop.simps [simp del]

definition cx88sdr_sram_setup ::
  "cx88sdr_dev \<Rightarrow> 32 word \<Rightarrow> 32 word \<Rightarrow> 32 word \<Rightarrow> 32 word \<Rightarrow> mmio_write list" where
  "cx88sdr_sram_setup dev numbuf buffsize buffptr cdtptr =
     (let buff = buffptr; cdt = cdtptr
      in sram_cdt_loop numbuf buffsize cdt 0 buff
         @ [mmio_iowrite32 (CHN24_CMDS_BASE + 0) (ucast (risc_inst_phy dev)),
            mmio_iowrite32 (CHN24_CMDS_BASE + 4) cdt,
            mmio_iowrite32 (CHN24_CMDS_BASE + 8) (numbuf * 2),
            mmio_iowrite32 (CHN24_CMDS_BASE + 12) RISC_INST_QUEUE,
            mmio_iowrite32 (CHN24_CMDS_BASE + 16) 0x40,
            mmio_iowrite32 MO_DMA24_PTR2 cdt,
            mmio_iowrite32 MO_DMA24_CNT1 (drop_bit 3 buffsize - 1),
            mmio_iowrite32 MO_DMA24_CNT2 (numbuf * 2)])"

text \<open>The call in \<open>cx88sdr_probe\<close>.\<close>

definition probe_sram_setup :: "cx88sdr_dev \<Rightarrow> mmio_write list" where
  "probe_sram_setup dev =
     cx88sdr_sram_setup dev (of_nat CLUSTER_BUF_NUM) (of_nat CLUSTER_BUF_SIZE)
       CLUSTER_BUFFER_BASE CDT_BASE"

section \<open>cx88sdr\_open\<close>

text \<open>
  Of \<open>struct file\<close> the driver reads \<open>f_flags & O_NONBLOCK\<close>; \<open>f_pos\<close> is the
  position that the kernel keeps for the open file and hands to \<open>cx88sdr_read\<close> through
  \<open>pos\<close>. \<open>cx88sdr_open\<close> reads \<open>MO_VBI_GPCNT\<close> (the argument \<open>gp_cnt\<close>), stores
  that value minus one in \<open>initial_page\<close> and unmasks the interrupt. It returns the
  device, the file and the register store.
\<close>

record struct_file =
  f_nonblock :: bool
  f_pos :: nat

definition cx88sdr_open ::
  "cx88sdr_dev \<Rightarrow> struct_file \<Rightarrow> 32 word
   \<Rightarrow> cx88sdr_dev \<times> struct_file \<times> mmio_write list" where
  "cx88sdr_open dev fl gp_cnt =
     (dev\<lparr>initial_page := gp_cnt - 1\<rparr>, fl, [mmio_iowrite32 MO_PCI_INTMSK 1])"

section \<open>cx88sdr\_read\<close>

text \<open>
  The page that holds the byte at \<open>pos\<close>:
  \<open>(dev->initial_page + ((*pos % VBI_DMA_SIZE) >> PAGE_SHIFT)) % VBI_DMA_PAGES\<close>.
  \<open>*pos\<close> is a \<open>loff_t\<close>, so the sum is formed in 64 bits from the zero-extended
  \<open>initial_page\<close> and cannot wrap; the kernel passes no negative position, so \<open>pos\<close>
  is a natural number.
\<close>

definition page_of_pos :: "cx88sdr_dev \<Rightarrow> nat \<Rightarrow> 32 word" where
  "page_of_pos dev pos =
     of_nat ((unat (initial_page dev) + (pos mod VBI_DMA_SIZE) div 2 ^ PAGE_SHIFT)
               mod VBI_DMA_PAGES)"

text \<open>
  User memory maps an address to its byte, or to \<open>None\<close> where nothing is mapped.
  \<open>copy_to_user\<close> is the kernel's: it stores bytes until it meets an unmapped address
  and returns the number of bytes it could not copy, 0 on success.
\<close>

type_synonym user_mem = "nat \<rightharpoonup> 8 word"

fun copy_to_user :: "user_mem \<Rightarrow> nat \<Rightarrow> 8 word list \<Rightarrow> user_mem \<times> nat" where
  "copy_to_user um to [] = (um, 0)"
| "copy_to_user um to (b # bs) =
     (case um to of
        None \<Rightarrow> (um, Suc (length bs))
      | Some old \<Rightarrow> copy_to_user (um(to \<mapsto> b)) (Suc to) bs)"

text \<open>\<open>memset (dev->pgvec_virt[p] + off, 0, len)\<close>.\<close>

definition memset_page ::
  "(nat \<Rightarrow> nat \<Rightarrow> 8 word) \<Rightarrow> nat \<Rightarrow> nat \<Rightarrow> nat \<Rightarrow> (nat \<Rightarrow> nat \<Rightarrow> 8 word)" where
  "memset_page pages p off len =
     pages(p := (\<lambda>x. if off \<le> x \<and> x < off + len then 0 else pages p x))"

text \<open>
  The variables of \<open>cx88sdr_read\<close> that its loops change: \<open>result\<close>, \<open>buf\<close>,
  \<open>*pos\<close>, \<open>size\<close> and \<open>pnum\<close>, the bytes of the pages (\<open>dev->pgvec_virt\<close>) and
  the user memory. \<open>size\<close> is at most the kernel's limit for one read, so the counts are
  natural numbers.
\<close>

record read_state =
  result :: nat
  buf :: nat
  pos :: nat
  size_rd :: nat
  pnum :: "32 word"
  pages :: "nat \<Rightarrow> nat \<Rightarrow> 8 word"
  user :: user_mem

text \<open>The length of the next copy: up to the end of the page, and at most \<open>size\<close>.\<close>

definition step_len :: "read_state \<Rightarrow> nat" where
  "step_len st =
     (let len = (if pos st mod PAGE_SIZE \<noteq> 0 then PAGE_SIZE - pos st mod PAGE_SIZE
                 else PAGE_SIZE)
      in if len > size_rd st then size_rd st else len)"

text \<open>The bytes at \<open>dev->pgvec_virt[pnum] + (*pos % PAGE_SIZE)\<close> that the copy reads.\<close>

definition step_src :: "read_state \<Rightarrow> 8 word list" where
  "step_src st =
     map (pages st (unat (pnum st)))
       [pos st mod PAGE_SIZE ..< pos st mod PAGE_SIZE + step_len st]"

text \<open>
  One round of the inner \<open>while\<close> loop: \<open>Inl\<close> when \<open>copy_to_user\<close> fails and the
  function returns \<open>-EFAULT\<close>, with the state as it is at that return.
\<close>

definition read_step :: "cx88sdr_dev \<Rightarrow> read_state \<Rightarrow> (errno \<times> read_state) + read_state" where
  "read_step dev st =
     (let len = step_len st;
          (um, left) = copy_to_user (user st) (buf st) (step_src st)
      in if left \<noteq> 0 then Inl (EFAULT, st\<lparr>user := um\<rparr>)
         else Inr (st\<lparr>result := result st + len,
                       buf := buf st + len,
                       pos := pos st + len,
                       size_rd := size_rd st - len,
                       pnum := page_of_pos dev (pos st + len),
                       pages := memset_page (pages st) (unat (pnum st))
                                  (pos st mod PAGE_SIZE) len,
                       user := um\<rparr>))"

text \<open>The inner loop \<open>while ((size > 0) && (pnum != gp_cnt))\<close>.\<close>

function read_inner ::
  "cx88sdr_dev \<Rightarrow> 32 word \<Rightarrow> read_state \<Rightarrow> (errno \<times> read_state) + read_state" where
  "read_inner dev gp_cnt st =
     (if size_rd st > 0 \<and> pnum st \<noteq> gp_cnt then
        (case read_step dev st of
           Inl e \<Rightarrow> Inl e
         | Inr st' \<Rightarrow> read_inner dev gp_cnt st')
      else Inr st)"
  by pat_completeness auto
termination
proof (relation "measure (\<lambda>(dev, gp_cnt, st). size_rd st)")
  show "wf (measure (\<lambda>(dev, gp_cnt, st). size_rd st))"
    by simp
next
  fix dev :: cx88sdr_dev and gp_cnt :: "32 word" and st st' :: read_state
  assume "0 < size_rd st \<and> pnum st \<noteq> gp_cnt" and "read_step dev st = Inr st'"
  then have "0 < size_rd st" and "size_rd st' = size_rd st - step_len st"
    by (auto simp: read_step_def Let_def split: prod.splits if_splits)
  moreover from \<open>0 < size_rd st\<close> have "0 < step_len st"
    by (simp add: step_len_def Let_def PAGE_SIZE_def)
  ultimately have "size_rd st' < size_rd st"
    by simp
  then show "((dev, gp_cnt, st'), (dev, gp_cnt, st)) \<in> measure (\<lambda>(dev, gp_cnt, st). size_rd st)"
    by simp
qed

declare read_inner.simps [simp del]

text \<open>
  The outer loop \<open>while (size)\<close>. In blocking mode every further round reads
  \<open>MO_VBI_GPCNT\<close> again; \<open>polls\<close> are the values those reads return, in order, and
  the result is \<open>None\<close> when the loop is still waiting after the last of them. Otherwise
  the result is the return value (\<open>Inl\<close> an error, \<open>Inr\<close> the byte count), the final
  state and the polls not yet used.
\<close>

function read_outer ::
  "bool \<Rightarrow> cx88sdr_dev \<Rightarrow> 32 word \<Rightarrow> read_state \<Rightarrow> 32 word list
   \<Rightarrow> ((errno + nat) \<times> read_state \<times> 32 word list) option" where
  "read_outer nonblock dev gp_cnt st polls =
     (if size_rd st = 0 then Some (Inr (result st), st, polls)
      else
        (case read_inner dev gp_cnt st of
           Inl (e, st') \<Rightarrow> Some (Inl e, st', polls)
         | Inr st' \<Rightarrow>
             if size_rd st' = 0 then Some (Inr (result st'), st', polls)
             else if nonblock then Some (Inr (result st'), st', polls)
             else
               (case polls of
                  [] \<Rightarrow> None
                | gp # polls' \<Rightarrow>
                    read_outer nonblock dev (gp_cnt_last_page gp) st' polls')))"
  by pat_completeness auto
termination
  by (relation "measure (\<lambda>(nonblock, dev, gp_cnt, st, polls). length polls)") auto

declare read_outer.simps [simp del]

text \<open>
  \<open>cx88sdr_read\<close>: \<open>nonblock\<close> is \<open>file->f_flags & O_NONBLOCK\<close>, \<open>gp\<close> is the value
  of the first read of \<open>MO_VBI_GPCNT\<close>, which every call makes.
\<close>

definition cx88sdr_read ::
  "cx88sdr_dev \<Rightarrow> bool \<Rightarrow> user_mem \<Rightarrow> nat \<Rightarrow> nat \<Rightarrow> nat \<Rightarrow> 32 word \<Rightarrow> 32 word list
   \<Rightarrow> ((errno + nat) \<times> read_state \<times> 32 word list) option" where
  "cx88sdr_read dev nonblock um ubuf size0 pos0 gp polls =
     (let st = \<lparr>result = 0, buf = ubuf, pos = pos0, size_rd = size0,
                 pnum = page_of_pos dev pos0, pages = pgvec_virt dev, user = um\<rparr>;
          gp_cnt = gp_cnt_last_page gp
      in if pnum st = gp_cnt \<and> nonblock then Some (Inr (result st), st, polls)
         else read_outer nonblock dev gp_cnt st polls)"

section \<open>Example inputs\<close>

definition example_dev :: cx88sdr_dev where
  "example_dev =
     \<lparr>risc_inst_phy = 0x1000,
      pgvec_phy = (\<lambda>i. 0x100000 + push_bit 12 (of_nat i)),
      risc_inst_buff_size = 0,
      initial_page = 0,
      pgvec_virt = (\<lambda>p x. 7)\<rparr>"

text \<open>
  A state in the middle of a read, two bytes before the end of page 3, with all of the user
  memory mapped; and a state after one page has been copied, with the user buffer ending
  where that page ended.
\<close>

definition copy_state :: read_state where
  "copy_state =
     \<lparr>result = 0, buf = 16, pos = 4094, size_rd = 5, pnum = 3,
      pages = (\<lambda>p x. 7), user = (\<lambda>a. Some 0)\<rparr>"

definition fault_state :: read_state where
  "fault_state =
     \<lparr>result = 4096, buf = 4096, pos = 4096, size_rd = 3, pnum = 1,
      pages = (\<lambda>p x. 7), user = (\<lambda>a. if a < 4096 then Some 7 else None)\<rparr>"

section \<open>Facts about the constants\<close>

lemma VBI_DMA_PAGES_eq: "VBI_DMA_PAGES = 16384"
  by (simp add: VBI_DMA_PAGES_def VBI_DMA_SIZE_def PAGE_SHIFT_def)

lemma PAGE_SIZE_eq: "PAGE_SIZE = 4096"
  by (simp add: PAGE_SIZE_def PAGE_SHIFT_def)

lemma VBI_DMA_BUF_NUM_eq: "VBI_DMA_BUF_NUM = 32768"
  by (simp add: VBI_DMA_BUF_NUM_def VBI_DMA_SIZE_def CLUSTER_BUF_SIZE_def)

lemma step_len_le: "step_len st \<le> size_rd st"
  by (simp add: step_len_def Let_def)

section \<open>The producer position is the page before the counter\<close>

text \<open>
  C1. For every raw counter value \<open>k\<close> below \<open>VBI_DMA_PAGES\<close>, the normalisation in
  \<open>cx88sdr_read\<close> gives \<open>VBI_DMA_PAGES - 1\<close> for \<open>k = 0\<close> and \<open>k - 1\<close> otherwise, and
  the result is again a page index below \<open>VBI_DMA_PAGES\<close>.
\<close>

theorem gp_cnt_last_page_correct:
  assumes "k < VBI_DMA_PAGES"
  shows "unat (gp_cnt_last_page (of_nat k)) = (if k = 0 then VBI_DMA_PAGES - 1 else k - 1)
         \<and> unat (gp_cnt_last_page (of_nat k)) < VBI_DMA_PAGES"
proof (cases "k = 0")
  case True
  then show ?thesis
    by (simp add: gp_cnt_last_page_def VBI_DMA_PAGES_eq)
next
  case False
  from assms have k: "k < 16384" by (simp add: VBI_DMA_PAGES_eq)
  then have u: "unat (of_nat k :: 32 word) = k"
    by (simp add: unat_of_nat)
  with False have nz: "(of_nat k :: 32 word) \<noteq> 0"
    by (metis unat_0)
  have "unat ((of_nat k :: 32 word) - 1) = k - 1"
    using nz u by (simp add: unat_minus_one)
  with False nz k show ?thesis
    by (simp add: gp_cnt_last_page_def VBI_DMA_PAGES_eq)
qed

theorem gp_cnt_last_page_correct_witness:
  "5 < VBI_DMA_PAGES \<and> unat (gp_cnt_last_page (of_nat 5)) = 4
   \<and> unat (gp_cnt_last_page (of_nat 5)) < VBI_DMA_PAGES"
  using gp_cnt_last_page_correct [of 5] by (simp add: VBI_DMA_PAGES_eq)


section \<open>The RISC program\<close>

lemma irqt_mask: "0 \<le> irqt \<Longrightarrow> (irqt + 1) AND 0x1ff = (irqt + 1) mod 512" for irqt :: int
proof -
  have "(0x1ff :: int) = mask 9" by (simp add: mask_eq_exp_minus_1)
  then have "(irqt + 1) AND 0x1ff = take_bit 9 (irqt + 1)"
    by (simp add: take_bit_eq_mask)
  then show ?thesis by (simp add: take_bit_eq_mod)
qed

lemma irqt_step: "(int (i mod 512) + 1) AND 0x1ff = int (Suc i mod 512)"
proof -
  have a: "(int (i mod 512) + 1) AND 0x1ff = (int (i mod 512) + 1) mod 512"
    by (rule irqt_mask) simp
  have b: "int (i mod 512) + 1 = int (i mod 512 + 1)"
    by simp
  have c: "int (i mod 512 + 1) mod 512 = int ((i mod 512 + 1) mod 512)"
    by (simp only: zmod_int of_nat_numeral)
  have d: "(i mod 512 + 1) mod 512 = Suc i mod 512"
    by (simp add: mod_Suc_eq)
  from a b have "(int (i mod 512) + 1) AND 0x1ff = int (i mod 512 + 1) mod 512"
    by (simp only:)
  with c d show ?thesis
    by (simp only:)
qed

lemma encode_page_writes:
  "concat (map risc_encode (page_writes dev i)) =
     [risc_write1, ucast (pgvec_phy dev i), risc_write2 (int (Suc i mod 512)) i,
      ucast (pgvec_phy dev i) + of_nat CLUSTER_BUF_SIZE]"
  by (simp add: page_writes_def risc_write1_def risc_write2_def)

lemma risc_write_loop_closed:
  "irqt = int (i mod 512) \<Longrightarrow>
   risc_write_loop dev i irqt =
     concat (map (\<lambda>j. concat (map risc_encode (page_writes dev j))) [i..<VBI_DMA_PAGES])"
proof (induction dev i irqt rule: risc_write_loop.induct)
  case (1 dev i irqt)
  show ?case
  proof (cases "i < VBI_DMA_PAGES")
    case True
    have step: "(irqt + 1) AND 0x1ff = int (Suc i mod 512)"
      using "1.prems" irqt_step by simp
    have IH: "risc_write_loop dev (i + 1) ((irqt + 1) AND 0x1ff) =
        concat (map (\<lambda>j. concat (map risc_encode (page_writes dev j))) [i + 1..<VBI_DMA_PAGES])"
      using "1.IH" [OF True refl refl] step by simp
    have "risc_write_loop dev i irqt =
        [risc_write1, ucast (pgvec_phy dev i), risc_write2 ((irqt + 1) AND 0x1ff) i,
         ucast (pgvec_phy dev i) + of_nat CLUSTER_BUF_SIZE]
        @ risc_write_loop dev (i + 1) ((irqt + 1) AND 0x1ff)"
      using True by (subst risc_write_loop.simps) (simp add: Let_def)
    with IH step True show ?thesis
      by (simp add: upt_conv_Cons encode_page_writes)
  next
    case False
    then show ?thesis
      by (subst risc_write_loop.simps) simp
  qed
qed

lemma length_page_writes: "length (concat (map (page_writes dev) xs)) = 2 * length xs"
  by (induction xs) (simp_all add: page_writes_def)

lemma length_encode_pages:
  "length (concat (map (\<lambda>j. concat (map risc_encode (page_writes dev j))) xs)) = 4 * length xs"
  by (induction xs) (simp_all add: encode_page_writes)

lemma encode_concat:
  "concat (map risc_encode (concat (map f xs))) =
   concat (map (\<lambda>j. concat (map risc_encode (f j))) xs)"
  by (induction xs) simp_all

lemma make_risc_instructions_closed:
  "cx88sdr_make_risc_instructions dev =
     concat (map risc_encode
       (Sync (push_bit 16 3) # concat (map (page_writes dev) [0..<VBI_DMA_PAGES])
          @ [Jump (ucast (risc_inst_phy dev + 4))]))"
  by (simp add: cx88sdr_make_risc_instructions_def risc_write_loop_closed encode_concat)

lemma nth_blocks:
  "j < length xs \<Longrightarrow> k < 4 \<Longrightarrow> (\<And>x. length (f x) = 4) \<Longrightarrow>
   concat (map f xs) ! (4 * j + k) = f (xs ! j) ! k"
proof (induction xs arbitrary: j)
  case Nil
  then show ?case by simp
next
  case (Cons x xs)
  show ?case
  proof (cases j)
    case 0
    with Cons.prems show ?thesis by (simp add: nth_append)
  next
    case (Suc j')
    with Cons.prems have "concat (map f xs) ! (4 * j' + k) = f (xs ! j') ! k"
      by (intro Cons.IH) simp_all
    with Suc Cons.prems show ?thesis by (simp add: nth_append)
  qed
qed

lemma bit24_write1: "\<not> bit risc_write1 24"
  by (simp add: risc_write1_def RISC_WRITE_def CLUSTER_BUF_SIZE_def bit_or_iff bit_push_bit_iff)

lemma bit24_write2: "bit (risc_write2 irqt i) 24 \<longleftrightarrow> irqt = 0"
  by (simp add: risc_write2_def RISC_WRITE_def CLUSTER_BUF_SIZE_def bit_or_iff bit_push_bit_iff)


lemma make_risc_instructions_nth:
  assumes "i < VBI_DMA_PAGES" and "k < 4"
  shows "cx88sdr_make_risc_instructions dev ! (Suc (4 * i + k)) =
         concat (map risc_encode (page_writes dev i)) ! k"
proof -
  let ?f = "\<lambda>j. concat (map risc_encode (page_writes dev j))"
  have len: "\<And>x. length (?f x) = 4"
    by (simp add: encode_page_writes)
  have "concat (map ?f [0..<VBI_DMA_PAGES]) ! (4 * i + k) = ?f ([0..<VBI_DMA_PAGES] ! i) ! k"
    using assms len by (intro nth_blocks) simp_all
  moreover have "4 * i + k < length (concat (map ?f [0..<VBI_DMA_PAGES]))"
    using assms by (simp add: length_encode_pages)
  ultimately show ?thesis
    using assms by (simp add: cx88sdr_make_risc_instructions_def risc_write_loop_closed nth_append)
qed

text \<open>
  C3. The words that \<open>cx88sdr_make_risc_instructions\<close> stores are the encoding of one
  \<open>Sync\<close>, then for every page in order two \<open>Write\<close> instructions of
  \<open>CLUSTER_BUF_SIZE\<close> bytes, at the bus address of the page and at that address plus
  \<open>CLUSTER_BUF_SIZE\<close>, then one \<open>Jump\<close>: \<open>1 + 2 * VBI_DMA_PAGES + 1\<close>
  instructions. \<open>CLUSTER_BUF_SIZE\<close> is half a page, and both control words that the code
  builds have the opcode of \<open>RISC_WRITE\<close> in their top four bits and that byte count in
  their low twelve bits, whatever the counter and the page are.
\<close>

theorem make_risc_instructions_program:
  "cx88sdr_make_risc_instructions dev =
     concat (map risc_encode
       (Sync (push_bit 16 3) # concat (map (page_writes dev) [0..<VBI_DMA_PAGES])
          @ [Jump (ucast (risc_inst_phy dev + 4))]))
   \<and> length (Sync (push_bit 16 3) # concat (map (page_writes dev) [0..<VBI_DMA_PAGES])
          @ [Jump (ucast (risc_inst_phy dev + 4))]) = 1 + 2 * VBI_DMA_PAGES + 1
   \<and> 2 * CLUSTER_BUF_SIZE = PAGE_SIZE
   \<and> drop_bit 28 risc_write1 = drop_bit 28 RISC_WRITE
   \<and> take_bit 12 risc_write1 = of_nat CLUSTER_BUF_SIZE
   \<and> drop_bit 28 (risc_write2 irqt i) = drop_bit 28 RISC_WRITE
   \<and> take_bit 12 (risc_write2 irqt i) = of_nat CLUSTER_BUF_SIZE"
proof -
  have w1: "risc_write1 = 0x1c000800"
    by (simp add: risc_write1_def RISC_WRITE_def CLUSTER_BUF_SIZE_def)
  have w2: "risc_write2 irqt i \<in> {0x1c010800, 0x1d010800, 0x1c030800, 0x1d030800}"
    by (simp add: risc_write2_def RISC_WRITE_def CLUSTER_BUF_SIZE_def)
  have op1: "drop_bit 28 risc_write1 = drop_bit 28 RISC_WRITE"
    and len1: "take_bit 12 risc_write1 = of_nat CLUSTER_BUF_SIZE"
    unfolding w1 by (simp_all add: RISC_WRITE_def CLUSTER_BUF_SIZE_def)
  from w2 have op2: "drop_bit 28 (risc_write2 irqt i) = drop_bit 28 RISC_WRITE"
    by (auto simp: RISC_WRITE_def)
  from w2 have len2: "take_bit 12 (risc_write2 irqt i) = of_nat CLUSTER_BUF_SIZE"
    by (auto simp: CLUSTER_BUF_SIZE_def)
  have half: "2 * CLUSTER_BUF_SIZE = PAGE_SIZE"
    by (simp add: CLUSTER_BUF_SIZE_def PAGE_SIZE_eq)
  have len: "length (Sync (push_bit 16 3) # concat (map (page_writes dev) [0..<VBI_DMA_PAGES])
          @ [Jump (ucast (risc_inst_phy dev + 4))]) = 1 + 2 * VBI_DMA_PAGES + 1"
    by (simp add: length_page_writes)
  from make_risc_instructions_closed [of dev] len half op1 len1 op2 len2 show ?thesis
    by (simp only: simp_thms)
qed

text \<open>
  C4, as the code has it. The counter \<open>irqt\<close> is incremented once per page, not once per
  \<open>Write\<close>. The first \<open>Write\<close> of page \<open>i\<close> (word \<open>1 + 4 * i\<close> of the program)
  never carries the interrupt bit 24; the second one (word \<open>3 + 4 * i\<close>) is built from
  the counter value \<open>(i + 1) mod 512\<close> and carries the bit exactly when that value
  is 0: once every 512 pages, which is once every 1024 half-page transfers.
\<close>

theorem irq_bit_every_512_pages:
  assumes "i < VBI_DMA_PAGES"
  shows "cx88sdr_make_risc_instructions dev ! (1 + 4 * i) = risc_write1
         \<and> \<not> bit (cx88sdr_make_risc_instructions dev ! (1 + 4 * i)) 24
         \<and> cx88sdr_make_risc_instructions dev ! (3 + 4 * i) = risc_write2 (int (Suc i mod 512)) i
         \<and> (bit (cx88sdr_make_risc_instructions dev ! (3 + 4 * i)) 24 \<longleftrightarrow> Suc i mod 512 = 0)"
proof -
  have a: "cx88sdr_make_risc_instructions dev ! (1 + 4 * i) = risc_write1"
    using make_risc_instructions_nth [OF assms, of 0 dev] by (simp add: encode_page_writes)
  have e: "3 + 4 * i = Suc (4 * i + 2)" by simp
  have b: "cx88sdr_make_risc_instructions dev ! (3 + 4 * i) = risc_write2 (int (Suc i mod 512)) i"
    unfolding e using make_risc_instructions_nth [OF assms, of 2 dev]
    by (simp add: encode_page_writes)
  have c: "bit (risc_write2 (int (Suc i mod 512)) i) 24 \<longleftrightarrow> Suc i mod 512 = 0"
    by (simp only: bit24_write2 of_nat_eq_0_iff)
  from a b c bit24_write1 show ?thesis
    by (simp only: simp_thms)
qed

text \<open>
  Page 511 is the first page whose second \<open>Write\<close> raises the interrupt.
\<close>

theorem irq_bit_every_512_pages_witness:
  "511 < VBI_DMA_PAGES
   \<and> cx88sdr_make_risc_instructions example_dev ! 2045 = risc_write1
   \<and> \<not> bit (cx88sdr_make_risc_instructions example_dev ! 2045) 24
   \<and> cx88sdr_make_risc_instructions example_dev ! 2047 = risc_write2 0 511
   \<and> bit (cx88sdr_make_risc_instructions example_dev ! 2047) 24"
  using irq_bit_every_512_pages [of 511 example_dev]
  by (simp add: VBI_DMA_PAGES_eq bit24_write1 bit24_write2)

text \<open>
  C4 as the spec states it would put the interrupt bit on the 512th \<open>Write\<close>
  instruction. That instruction is word 1023 of the program, the second \<open>Write\<close> of
  page 255, built from the counter value 256; it does not carry the bit.
\<close>

theorem irq_bit_not_every_512_writes:
  "cx88sdr_make_risc_instructions example_dev ! 1023 = risc_write2 256 255
   \<and> \<not> bit (cx88sdr_make_risc_instructions example_dev ! 1023) 24"
proof -
  have "cx88sdr_make_risc_instructions example_dev ! (Suc (4 * 255 + 2)) =
        concat (map risc_encode (page_writes example_dev 255)) ! 2"
    by (rule make_risc_instructions_nth) (simp_all add: VBI_DMA_PAGES_eq)
  then have "cx88sdr_make_risc_instructions example_dev ! 1023 = risc_write2 256 255"
    by (simp add: encode_page_writes)
  then show ?thesis
    by (simp add: bit24_write2)
qed

text \<open>
  C10. The program takes 4 bytes for the \<open>Sync\<close>, 16 bytes per page and 8 bytes for the
  \<open>Jump\<close>, and that is at most the buffer size that
  \<open>cx88sdr_alloc_risc_inst_buffer\<close> stores,
  \<open>VBI_DMA_BUF_NUM * CLUSTER_BUF_NUM + PAGE_SIZE\<close>, whether or not the allocation
  succeeds.
\<close>

theorem risc_program_fits_buffer:
  "4 * length (cx88sdr_make_risc_instructions d) = 4 + 16 * VBI_DMA_PAGES + 8
   \<and> 4 * length (cx88sdr_make_risc_instructions d)
        \<le> unat (risc_inst_buff_size (snd (cx88sdr_alloc_risc_inst_buffer dev a)))"
proof -
  have len: "length (cx88sdr_make_risc_instructions d) = 1 + 4 * VBI_DMA_PAGES + 2"
    by (simp add: cx88sdr_make_risc_instructions_def risc_write_loop_closed length_encode_pages)
  have sz: "unat (risc_inst_buff_size (snd (cx88sdr_alloc_risc_inst_buffer dev a))) = 266240"
    by (cases a)
       (simp_all add: cx88sdr_alloc_risc_inst_buffer_def VBI_DMA_BUF_NUM_eq CLUSTER_BUF_NUM_def
          PAGE_SIZE_eq)
  from len sz show ?thesis
    by (simp add: VBI_DMA_PAGES_eq)
qed


section \<open>The cluster descriptor table\<close>

lemma sram_cdt_loop_closed:
  "i \<le> unat numbuf \<Longrightarrow>
   sram_cdt_loop numbuf buffsize cdt i (buffptr + of_nat i * buffsize) =
     map (\<lambda>j. mmio_iowrite32 (cdt + 16 * of_nat j) (buffptr + of_nat j * buffsize))
       [i..<unat numbuf]"
proof (induction "unat numbuf - i" arbitrary: i)
  case 0
  then show ?case by (subst sram_cdt_loop.simps) simp
next
  case (Suc n)
  then have lt: "i < unat numbuf" by simp
  have e: "buffptr + of_nat i * buffsize + buffsize = buffptr + of_nat (i + 1) * buffsize"
    by (simp add: algebra_simps)
  have IH: "sram_cdt_loop numbuf buffsize cdt (i + 1) (buffptr + of_nat (i + 1) * buffsize) =
     map (\<lambda>j. mmio_iowrite32 (cdt + 16 * of_nat j) (buffptr + of_nat j * buffsize))
       [i + 1..<unat numbuf]"
    using Suc.hyps(2) lt by (intro Suc.hyps(1)) simp_all
  have "sram_cdt_loop numbuf buffsize cdt i (buffptr + of_nat i * buffsize) =
     mmio_iowrite32 (cdt + 16 * of_nat i) (buffptr + of_nat i * buffsize)
       # sram_cdt_loop numbuf buffsize cdt (i + 1) (buffptr + of_nat i * buffsize + buffsize)"
    using lt by (subst sram_cdt_loop.simps) simp
  also have "\<dots> = mmio_iowrite32 (cdt + 16 * of_nat i) (buffptr + of_nat i * buffsize)
       # map (\<lambda>j. mmio_iowrite32 (cdt + 16 * of_nat j) (buffptr + of_nat j * buffsize))
           [i + 1..<unat numbuf]"
    by (simp only: e IH)
  also have "\<dots> = map (\<lambda>j. mmio_iowrite32 (cdt + 16 * of_nat j) (buffptr + of_nat j * buffsize))
       [i..<unat numbuf]"
    using lt by (simp add: upt_conv_Cons)
  finally show ?case .
qed

text \<open>
  C9. \<open>cx88sdr_sram_setup\<close> stores, for every slot \<open>i\<close> below \<open>numbuf\<close>, the
  address \<open>buffptr + i * buffsize\<close> at \<open>cdtptr + 16 * i\<close>, then the command block
  with the bus address of the RISC program and \<open>numbuf * 2\<close>, then the registers with
  \<open>(buffsize >> 3) - 1\<close> and \<open>numbuf * 2\<close>. For the call in \<open>cx88sdr_probe\<close> these
  are eight table entries 16 bytes apart from \<open>0x181000\<close>, for slots 2048 bytes apart
  from \<open>0x184000\<close>, the count 16 and the size 255.
\<close>

theorem sram_setup_writes:
  "cx88sdr_sram_setup dev numbuf buffsize buffptr cdtptr =
     map (\<lambda>i. mmio_iowrite32 (cdtptr + 16 * of_nat i) (buffptr + of_nat i * buffsize))
       [0..<unat numbuf]
     @ [mmio_iowrite32 (CHN24_CMDS_BASE + 0) (ucast (risc_inst_phy dev)),
        mmio_iowrite32 (CHN24_CMDS_BASE + 4) cdtptr,
        mmio_iowrite32 (CHN24_CMDS_BASE + 8) (numbuf * 2),
        mmio_iowrite32 (CHN24_CMDS_BASE + 12) RISC_INST_QUEUE,
        mmio_iowrite32 (CHN24_CMDS_BASE + 16) 0x40,
        mmio_iowrite32 MO_DMA24_PTR2 cdtptr,
        mmio_iowrite32 MO_DMA24_CNT1 (drop_bit 3 buffsize - 1),
        mmio_iowrite32 MO_DMA24_CNT2 (numbuf * 2)]
   \<and> probe_sram_setup dev =
     [(0x181000, 0x184000), (0x181010, 0x184800), (0x181020, 0x185000), (0x181030, 0x185800),
      (0x181040, 0x186000), (0x181050, 0x186800), (0x181060, 0x187000), (0x181070, 0x187800),
      (0x180100, ucast (risc_inst_phy dev)), (0x180104, 0x181000), (0x180108, 16),
      (0x18010c, 0x180800), (0x180110, 0x40),
      (0x3000cc, 0x181000), (0x30010c, 255), (0x30014c, 16)]"
proof -
  have loop: "\<And>numbuf buffsize cdt buffptr. sram_cdt_loop numbuf buffsize cdt 0 buffptr =
     map (\<lambda>j. mmio_iowrite32 (cdt + 16 * of_nat j) (buffptr + of_nat j * buffsize))
       [0..<unat numbuf]"
    using sram_cdt_loop_closed [of 0] by simp
  have gen: "\<And>numbuf buffsize buffptr cdtptr. cx88sdr_sram_setup dev numbuf buffsize buffptr cdtptr =
     map (\<lambda>i. mmio_iowrite32 (cdtptr + 16 * of_nat i) (buffptr + of_nat i * buffsize))
       [0..<unat numbuf]
     @ [mmio_iowrite32 (CHN24_CMDS_BASE + 0) (ucast (risc_inst_phy dev)),
        mmio_iowrite32 (CHN24_CMDS_BASE + 4) cdtptr,
        mmio_iowrite32 (CHN24_CMDS_BASE + 8) (numbuf * 2),
        mmio_iowrite32 (CHN24_CMDS_BASE + 12) RISC_INST_QUEUE,
        mmio_iowrite32 (CHN24_CMDS_BASE + 16) 0x40,
        mmio_iowrite32 MO_DMA24_PTR2 cdtptr,
        mmio_iowrite32 MO_DMA24_CNT1 (drop_bit 3 buffsize - 1),
        mmio_iowrite32 MO_DMA24_CNT2 (numbuf * 2)]"
    by (simp add: cx88sdr_sram_setup_def loop)
  have upt8: "[0..<8] = [0, 1, 2, 3, 4, 5, 6, 7]"
    by (simp add: upt_rec)
  have probe: "probe_sram_setup dev =
     [(0x181000, 0x184000), (0x181010, 0x184800), (0x181020, 0x185000), (0x181030, 0x185800),
      (0x181040, 0x186000), (0x181050, 0x186800), (0x181060, 0x187000), (0x181070, 0x187800),
      (0x180100, ucast (risc_inst_phy dev)), (0x180104, 0x181000), (0x180108, 16),
      (0x18010c, 0x180800), (0x180110, 0x40),
      (0x3000cc, 0x181000), (0x30010c, 255), (0x30014c, 16)]"
    unfolding probe_sram_setup_def gen
    by (simp add: CLUSTER_BUF_NUM_def CLUSTER_BUF_SIZE_def CLUSTER_BUFFER_BASE_def CDT_BASE_def
          CX_SRAM_BASE_def CHN24_CMDS_BASE_def RISC_INST_QUEUE_def MO_DMA24_PTR2_def
          MO_DMA24_CNT1_def MO_DMA24_CNT2_def mmio_iowrite32_def upt8 drop_bit_eq_div
          push_bit_eq_mult)
  from gen probe show ?thesis by (simp only: simp_thms)
qed


section \<open>Opening a session\<close>

lemma last_page_mod:
  "unat (raw - 1 :: 32 word) mod VBI_DMA_PAGES = unat (gp_cnt_last_page raw) mod VBI_DMA_PAGES"
  by (simp add: gp_cnt_last_page_def VBI_DMA_PAGES_eq unsigned_minus_1_eq_mask
        mask_eq_exp_minus_1)

text \<open>
  C2, as the code has it. \<open>cx88sdr_open\<close> stores the raw counter minus one, in 32-bit
  arithmetic. Modulo \<open>VBI_DMA_PAGES\<close> that is the last page written itself (one page
  behind the page the card is about to write), not the page before it. The file, and with it
  the position, is left as the kernel set it up.
\<close>

theorem open_initial_page:
  "initial_page (fst (cx88sdr_open dev fl raw)) = raw - 1
   \<and> unat (initial_page (fst (cx88sdr_open dev fl raw))) mod VBI_DMA_PAGES
       = unat (gp_cnt_last_page raw) mod VBI_DMA_PAGES
   \<and> fst (snd (cx88sdr_open dev fl raw)) = fl"
  by (simp add: cx88sdr_open_def last_page_mod)

text \<open>
  C2 as the spec states it fails when the counter reads 5: the last page written is 4, the
  spec's start page would be 3, and \<open>cx88sdr_open\<close> stores 4.
\<close>

theorem open_initial_page_not_one_behind:
  "unat (initial_page (fst (cx88sdr_open example_dev \<lparr>f_nonblock = False, f_pos = 0\<rparr> 5)))
     mod VBI_DMA_PAGES = 4
   \<and> (unat (gp_cnt_last_page 5) + VBI_DMA_PAGES - 1) mod VBI_DMA_PAGES = 3"
  by (simp add: cx88sdr_open_def gp_cnt_last_page_def VBI_DMA_PAGES_eq)

section \<open>Reading\<close>

text \<open>
  C8. A read of 0 bytes returns 0 whatever the position, the counter and the blocking mode
  are; it leaves the position, the pages and the user memory as they were and polls the
  counter no further.
\<close>

theorem zero_length_read:
  "cx88sdr_read dev nonblock um ubuf 0 pos0 gp polls =
     Some (Inr 0,
           \<lparr>result = 0, buf = ubuf, pos = pos0, size_rd = 0, pnum = page_of_pos dev pos0,
            pages = pgvec_virt dev, user = um\<rparr>,
           polls)"
  by (simp add: cx88sdr_read_def Let_def read_outer.simps)

lemma copy_to_user_below:
  "copy_to_user um to bs = (um', n) \<Longrightarrow> a < to \<Longrightarrow> um' a = um a"
proof (induction bs arbitrary: um to)
  case Nil
  then show ?case by simp
next
  case (Cons b bs)
  show ?case
  proof (cases "um to")
    case None
    with Cons.prems show ?thesis by simp
  next
    case (Some old)
    with Cons.prems have rec: "copy_to_user (um(to \<mapsto> b)) (Suc to) bs = (um', n)"
      by simp
    from Cons.prems(2) have "a < Suc to" by simp
    with rec have "um' a = (um(to \<mapsto> b)) a"
      by (rule Cons.IH)
    with Cons.prems(2) show ?thesis by simp
  qed
qed

lemma copy_to_user_ok:
  "copy_to_user um to bs = (um', 0) \<Longrightarrow> map um' [to..<to + length bs] = map Some bs"
proof (induction bs arbitrary: um to)
  case Nil
  then show ?case by simp
next
  case (Cons b bs)
  show ?case
  proof (cases "um to")
    case None
    with Cons.prems show ?thesis by simp
  next
    case (Some old)
    with Cons.prems have rec: "copy_to_user (um(to \<mapsto> b)) (Suc to) bs = (um', 0)"
      by simp
    then have tl: "map um' [Suc to..<Suc to + length bs] = map Some bs"
      by (rule Cons.IH)
    from rec have "um' to = (um(to \<mapsto> b)) to"
      by (rule copy_to_user_below) simp
    then have hd: "um' to = Some b" by simp
    have "[to..<to + length (b # bs)] = to # [Suc to..<Suc to + length bs]"
      by (subst upt_rec) simp
    with hd tl show ?thesis by simp
  qed
qed

lemma memset_page_region:
  "map (memset_page pg p off len p) [off..<off + len] = replicate len 0"
  by (rule nth_equalityI) (simp_all add: memset_page_def)


section \<open>The loops of cx88sdr\_read\<close>

lemma read_step_ok:
  assumes "snd (copy_to_user (user st) (buf st) (step_src st)) = 0"
  shows "read_step dev st =
     Inr (st\<lparr>result := result st + step_len st,
              buf := buf st + step_len st,
              pos := pos st + step_len st,
              size_rd := size_rd st - step_len st,
              pnum := page_of_pos dev (pos st + step_len st),
              pages := memset_page (pages st) (unat (pnum st)) (pos st mod PAGE_SIZE)
                         (step_len st),
              user := fst (copy_to_user (user st) (buf st) (step_src st))\<rparr>)"
  using assms by (cases "copy_to_user (user st) (buf st) (step_src st)")
    (simp add: read_step_def Let_def)

lemma read_step_fault:
  assumes "snd (copy_to_user (user st) (buf st) (step_src st)) \<noteq> 0"
  shows "read_step dev st =
     Inl (EFAULT, st\<lparr>user := fst (copy_to_user (user st) (buf st) (step_src st))\<rparr>)"
  using assms by (cases "copy_to_user (user st) (buf st) (step_src st)")
    (simp add: read_step_def Let_def)

lemma read_step_Inr:
  assumes "read_step dev st = Inr st'"
  shows "pos st' = pos st + step_len st" and "result st' = result st + step_len st"
    and "size_rd st' = size_rd st - step_len st" and "pnum st' = page_of_pos dev (pos st')"
  using assms by (auto simp: read_step_def Let_def split: prod.splits if_splits)

lemma read_step_Inl:
  "read_step dev st = Inl (e, st') \<Longrightarrow> e = EFAULT"
  by (auto simp: read_step_def Let_def split: prod.splits if_splits)

lemma read_inner_Inl:
  "read_inner dev gp_cnt st = Inl (e, st') \<Longrightarrow> e = EFAULT"
proof (induction dev gp_cnt st rule: read_inner.induct)
  case (1 dev gp_cnt st)
  show ?case
  proof (cases "size_rd st > 0 \<and> pnum st \<noteq> gp_cnt")
    case True
    show ?thesis
    proof (cases "read_step dev st")
      case (Inl x)
      with True "1.prems" have "read_step dev st = Inl (e, st')"
        by (subst (asm) read_inner.simps) simp
      then show ?thesis by (rule read_step_Inl)
    next
      case (Inr s1)
      with True "1.prems" have "read_inner dev gp_cnt s1 = Inl (e, st')"
        by (subst (asm) read_inner.simps) simp
      with True Inr show ?thesis by (rule "1.IH")
    qed
  next
    case False
    with "1.prems" show ?thesis
      by (subst (asm) read_inner.simps) simp
  qed
qed

lemma read_inner_Inr:
  "read_inner dev gp_cnt st = Inr st' \<Longrightarrow>
   pos st \<le> pos st' \<and> result st' = result st + (pos st' - pos st)
   \<and> size_rd st' + (pos st' - pos st) = size_rd st
   \<and> (pnum st = page_of_pos dev (pos st) \<longrightarrow> pnum st' = page_of_pos dev (pos st'))
   \<and> (size_rd st' = 0 \<or> pnum st' = gp_cnt)"
proof (induction dev gp_cnt st rule: read_inner.induct)
  case (1 dev gp_cnt st)
  show ?case
  proof (cases "size_rd st > 0 \<and> pnum st \<noteq> gp_cnt")
    case True
    show ?thesis
    proof (cases "read_step dev st")
      case (Inl x)
      with True "1.prems" show ?thesis
        by (subst (asm) read_inner.simps) simp
    next
      case (Inr s1)
      with True "1.prems" have "read_inner dev gp_cnt s1 = Inr st'"
        by (subst (asm) read_inner.simps) simp
      with True Inr have IH: "pos s1 \<le> pos st' \<and> result st' = result s1 + (pos st' - pos s1)
          \<and> size_rd st' + (pos st' - pos s1) = size_rd s1
          \<and> (pnum s1 = page_of_pos dev (pos s1) \<longrightarrow> pnum st' = page_of_pos dev (pos st'))
          \<and> (size_rd st' = 0 \<or> pnum st' = gp_cnt)"
        by (rule "1.IH")
      note s = read_step_Inr [OF Inr]
      have le: "step_len st \<le> size_rd st" by (rule step_len_le)
      from IH s le show ?thesis by auto
    qed
  next
    case False
    with "1.prems" have "st' = st"
      by (subst (asm) read_inner.simps) simp
    with False show ?thesis by auto
  qed
qed

lemma read_inner_stay:
  "size_rd st = 0 \<or> pnum st = gp_cnt \<Longrightarrow> read_inner dev gp_cnt st = Inr st"
  by (subst read_inner.simps) auto

lemma read_inner_fault:
  assumes "0 < size_rd st" and "pnum st \<noteq> gp_cnt"
    and "snd (copy_to_user (user st) (buf st) (step_src st)) \<noteq> 0"
  shows "read_inner dev gp_cnt st =
     Inl (EFAULT, st\<lparr>user := fst (copy_to_user (user st) (buf st) (step_src st))\<rparr>)"
  using assms by (subst read_inner.simps) (simp add: read_step_fault)

lemma read_inner_step:
  assumes "0 < size_rd st" and "pnum st \<noteq> gp_cnt" and "read_step dev st = Inr st'"
  shows "read_inner dev gp_cnt st = read_inner dev gp_cnt st'"
  using assms by (subst read_inner.simps) simp

text \<open>A round that copies leaves the rest of the call as it is from the state it reaches.\<close>

lemma read_outer_step:
  assumes "0 < size_rd st" and "pnum st \<noteq> gp_cnt" and "read_step dev st = Inr st'"
  shows "read_outer nonblock dev gp_cnt st polls = read_outer nonblock dev gp_cnt st' polls"
proof (cases "size_rd st' = 0")
  case True
  then have "read_inner dev gp_cnt st' = Inr st'"
    by (simp add: read_inner_stay)
  with assms have "read_inner dev gp_cnt st = Inr st'"
    by (simp add: read_inner_step)
  with assms(1) True show ?thesis
    by (simp add: read_outer.simps [of _ _ _ st] read_outer.simps [of _ _ _ st'])
next
  case False
  with assms show ?thesis
    by (simp add: read_outer.simps [of _ _ _ st] read_outer.simps [of _ _ _ st']
          read_inner_step)
qed

text \<open>
  C7. Take any state that a read call has reached, with bytes still wanted and the reader
  not on the producer's page. When \<open>copy_to_user\<close> fails there, the call returns
  \<open>EFAULT\<close> at once: the state it leaves differs only in the user memory, so the position
  is not advanced and the page is not zeroed, and the count in \<open>result\<close> from earlier
  rounds is not returned. No further poll is made.
\<close>

theorem read_fault_aborts:
  assumes "0 < size_rd st" and "pnum st \<noteq> gp_cnt"
    and "snd (copy_to_user (user st) (buf st) (step_src st)) \<noteq> 0"
  shows "read_outer nonblock dev gp_cnt st polls =
     Some (Inl EFAULT,
           st\<lparr>user := fst (copy_to_user (user st) (buf st) (step_src st))\<rparr>,
           polls)"
  using assms by (simp add: read_outer.simps read_inner_fault)

text \<open>
  C6. A round of the copy loop whose \<open>copy_to_user\<close> succeeds advances the position by
  the copied length, has put the bytes of the page into the user buffer, and leaves zeros in
  the page at \<open>pos mod PAGE_SIZE\<close> for that length: reading the region again gives
  zeros.
\<close>

theorem read_step_zeroes:
  assumes "snd (copy_to_user (user st) (buf st) (step_src st)) = 0"
  shows "\<exists>st'. read_step dev st = Inr st'
     \<and> pos st' = pos st + step_len st
     \<and> map (user st') [buf st..<buf st + step_len st] = map Some (step_src st)
     \<and> map (pages st' (unat (pnum st)))
           [pos st mod PAGE_SIZE..<pos st mod PAGE_SIZE + step_len st]
         = replicate (step_len st) 0"
proof -
  let ?c = "copy_to_user (user st) (buf st) (step_src st)"
  have len: "length (step_src st) = step_len st"
    by (simp add: step_src_def)
  from assms have "?c = (fst ?c, 0)"
    by (metis prod.collapse)
  then have "map (fst ?c) [buf st..<buf st + length (step_src st)] = map Some (step_src st)"
    by (rule copy_to_user_ok)
  with len show ?thesis
    by (simp add: read_step_ok [OF assms] memset_page_region)
qed


lemma copy_to_user_dom:
  "fst (copy_to_user um to bs) a = None \<longleftrightarrow> um a = None"
proof (induction bs arbitrary: um to)
  case Nil
  then show ?case by simp
next
  case (Cons b bs)
  show ?case
  proof (cases "um to")
    case None
    then show ?thesis by simp
  next
    case (Some old)
    have "fst (copy_to_user (um(to \<mapsto> b)) (Suc to) bs) a = None
          \<longleftrightarrow> (um(to \<mapsto> b)) a = None"
      by (rule Cons.IH)
    with Some show ?thesis by auto
  qed
qed

lemma copy_to_user_snd_cong:
  "(\<And>a. um a = None \<longleftrightarrow> um2 a = None) \<Longrightarrow>
   snd (copy_to_user um to bs) = snd (copy_to_user um2 to bs)"
proof (induction bs arbitrary: um um2 to)
  case Nil
  then show ?case by simp
next
  case (Cons b bs)
  show ?case
  proof (cases "um to")
    case None
    with Cons.prems [of to] have "um2 to = None" by simp
    with None show ?thesis by simp
  next
    case (Some old)
    with Cons.prems [of to] obtain old2 where o2: "um2 to = Some old2" by auto
    have "snd (copy_to_user (um(to \<mapsto> b)) (Suc to) bs)
          = snd (copy_to_user (um2(to \<mapsto> b)) (Suc to) bs)"
      by (rule Cons.IH) (simp add: Cons.prems)
    with Some o2 show ?thesis by simp
  qed
qed

lemma copy_to_user_again:
  "snd (copy_to_user (fst (copy_to_user um to bs)) to bs) = snd (copy_to_user um to bs)"
  by (rule copy_to_user_snd_cong) (rule copy_to_user_dom)

lemma copy_to_user_mapped:
  "(\<And>a. um a \<noteq> None) \<Longrightarrow> snd (copy_to_user um to bs) = 0"
proof (induction bs arbitrary: um to)
  case Nil
  then show ?case by simp
next
  case (Cons b bs)
  from Cons.prems [of to] obtain old where o: "um to = Some old" by auto
  have "snd (copy_to_user (um(to \<mapsto> b)) (Suc to) bs) = 0"
    by (rule Cons.IH) (use Cons.prems in auto)
  with o show ?case by simp
qed

lemma step_src_user: "step_src (st\<lparr>user := um\<rparr>) = step_src st"
  by (simp add: step_src_def step_len_def Let_def)

lemma read_step_Inl_state:
  assumes "read_step dev st = Inl (e, st')"
  shows "e = EFAULT" and "size_rd st' = size_rd st" and "pnum st' = pnum st"
    and "snd (copy_to_user (user st') (buf st') (step_src st')) \<noteq> 0"
proof -
  let ?c = "copy_to_user (user st) (buf st) (step_src st)"
  have nz: "snd ?c \<noteq> 0"
  proof
    assume "snd ?c = 0"
    then have "read_step dev st = Inr (st\<lparr>result := result st + step_len st,
              buf := buf st + step_len st,
              pos := pos st + step_len st,
              size_rd := size_rd st - step_len st,
              pnum := page_of_pos dev (pos st + step_len st),
              pages := memset_page (pages st) (unat (pnum st)) (pos st mod PAGE_SIZE)
                         (step_len st),
              user := fst ?c\<rparr>)"
      by (rule read_step_ok)
    with assms show False by simp
  qed
  with assms have eq: "e = EFAULT \<and> st' = st\<lparr>user := fst ?c\<rparr>"
    by (simp add: read_step_fault)
  then show "e = EFAULT" and "size_rd st' = size_rd st" and "pnum st' = pnum st"
    by simp_all
  from eq nz show "snd (copy_to_user (user st') (buf st') (step_src st')) \<noteq> 0"
    by (simp add: copy_to_user_again step_src_user)
qed

lemma read_inner_Inl_state:
  "read_inner dev gp_cnt st = Inl (e, st') \<Longrightarrow>
   e = EFAULT \<and> 0 < size_rd st' \<and> pnum st' \<noteq> gp_cnt
   \<and> snd (copy_to_user (user st') (buf st') (step_src st')) \<noteq> 0"
proof (induction dev gp_cnt st rule: read_inner.induct)
  case (1 dev gp_cnt st)
  show ?case
  proof (cases "size_rd st > 0 \<and> pnum st \<noteq> gp_cnt")
    case True
    show ?thesis
    proof (cases "read_step dev st")
      case (Inl x)
      with True "1.prems" have "read_step dev st = Inl (e, st')"
        by (subst (asm) read_inner.simps) simp
      from read_step_Inl_state [OF this] True show ?thesis by simp
    next
      case (Inr s1)
      with True "1.prems" have "read_inner dev gp_cnt s1 = Inl (e, st')"
        by (subst (asm) read_inner.simps) simp
      with True Inr show ?thesis by (rule "1.IH")
    qed
  next
    case False
    with "1.prems" show ?thesis
      by (subst (asm) read_inner.simps) simp
  qed
qed

lemma read_outer_stalled:
  assumes "0 < size_rd st" and "pnum st = gp_cnt"
  shows "read_outer True dev gp_cnt st polls = Some (Inr (result st), st, polls)"
proof -
  from assms have "read_inner dev gp_cnt st = Inr st"
    by (simp add: read_inner_stay)
  with assms show ?thesis
    by (simp add: read_outer.simps)
qed

lemma read_step_copies:
  assumes "snd (copy_to_user (user s) (buf s) (step_src s)) = 0"
  shows "\<exists>s'. read_step dev s = Inr s' \<and> result s' = result s + step_len s
     \<and> map (user s') [buf s..<buf s + step_len s] = map Some (step_src s)"
proof -
  let ?c = "copy_to_user (user s) (buf s) (step_src s)"
  have len: "length (step_src s) = step_len s"
    by (simp add: step_src_def)
  from assms have "?c = (fst ?c, 0)"
    by (metis prod.collapse)
  then have "map (fst ?c) [buf s..<buf s + length (step_src s)] = map Some (step_src s)"
    by (rule copy_to_user_ok)
  with len show ?thesis
    by (simp add: read_step_ok [OF assms])
qed

lemma cx88sdr_read_summary:
  "\<exists>ret st'. cx88sdr_read dev True um ubuf usize upos gp polls = Some (ret, st', polls)
     \<and> ((ret = Inl EFAULT \<and> 0 < size_rd st' \<and> pnum st' \<noteq> gp_cnt_last_page gp
          \<and> snd (copy_to_user (user st') (buf st') (step_src st')) \<noteq> 0)
        \<or> (ret = Inr (result st') \<and> result st' = pos st' - upos \<and> upos \<le> pos st'
            \<and> size_rd st' + result st' = usize
            \<and> pnum st' = page_of_pos dev (pos st')
            \<and> (size_rd st' = 0 \<or> pnum st' = gp_cnt_last_page gp)))"
proof -
  let ?st = "\<lparr>result = 0, buf = ubuf, pos = upos, size_rd = usize,
               pnum = page_of_pos dev upos, pages = pgvec_virt dev, user = um\<rparr>"
  let ?gp = "gp_cnt_last_page gp"
  show ?thesis
  proof (cases "page_of_pos dev upos = ?gp")
    case True
    then have "cx88sdr_read dev True um ubuf usize upos gp polls = Some (Inr 0, ?st, polls)"
      by (simp add: cx88sdr_read_def Let_def)
    with True show ?thesis by simp
  next
    case False
    then have rd: "cx88sdr_read dev True um ubuf usize upos gp polls =
        read_outer True dev ?gp ?st polls"
      by (simp add: cx88sdr_read_def Let_def)
    show ?thesis
    proof (cases "usize = 0")
      case True
      with rd have "cx88sdr_read dev True um ubuf usize upos gp polls = Some (Inr 0, ?st, polls)"
        by (simp add: read_outer.simps)
      with True show ?thesis by simp
    next
      case nz: False
      show ?thesis
      proof (cases "read_inner dev ?gp ?st")
        case (Inl x)
        obtain e st' where x: "x = (e, st')" by (cases x)
        with Inl have "read_inner dev ?gp ?st = Inl (e, st')" by simp
        from read_inner_Inl_state [OF this]
        have f: "e = EFAULT" "0 < size_rd st'" "pnum st' \<noteq> ?gp"
          "snd (copy_to_user (user st') (buf st') (step_src st')) \<noteq> 0"
          by auto
        from rd nz Inl x f(1) have "cx88sdr_read dev True um ubuf usize upos gp polls =
            Some (Inl EFAULT, st', polls)"
          by (simp add: read_outer.simps)
        with f show ?thesis by simp
      next
        case (Inr st')
        with rd nz have r: "cx88sdr_read dev True um ubuf usize upos gp polls =
            Some (Inr (result st'), st', polls)"
          by (simp add: read_outer.simps)
        from read_inner_Inr [OF Inr]
        have inv: "upos \<le> pos st'" "result st' = pos st' - upos"
          "size_rd st' + (pos st' - upos) = usize"
          "pnum st' = page_of_pos dev (pos st')" "size_rd st' = 0 \<or> pnum st' = ?gp"
          by auto
        with r show ?thesis by auto
      qed
    qed
  qed
qed

text \<open>
  C5. A non-blocking read never waits and polls the counter no further. The driver has no
  value of its own for "would block": that outcome is the return value 0 with nothing
  copied.
  \<^item> When the reader's page is the producer's last page at entry, the call returns 0 and
    changes nothing; otherwise it runs the loops from the initial state.
  \<^item> In any state of the loops with bytes still wanted and the reader on the producer's
    page, the call returns the count \<open>result\<close> copied so far, and that state.
  \<^item> In any state with bytes still wanted and the reader not on the producer's page, a
    round whose copy succeeds puts its bytes into the user buffer, adds their number, which
    is not 0, to \<open>result\<close>, and the call goes on from the state reached.
  \<^item> The call as a whole returns \<open>EFAULT\<close>, in a state of the loops whose copy fails, or
    it returns \<open>result\<close>, which is the advance of the position, with either all bytes
    copied or the reader on the producer's page.
\<close>

theorem nonblocking_read:
  "(page_of_pos dev upos = gp_cnt_last_page gp \<longrightarrow>
      cx88sdr_read dev True um ubuf usize upos gp polls =
        Some (Inr 0,
              \<lparr>result = 0, buf = ubuf, pos = upos, size_rd = usize,
               pnum = page_of_pos dev upos, pages = pgvec_virt dev, user = um\<rparr>,
              polls))
   \<and> (page_of_pos dev upos \<noteq> gp_cnt_last_page gp \<longrightarrow>
      cx88sdr_read dev True um ubuf usize upos gp polls =
        read_outer True dev (gp_cnt_last_page gp)
          \<lparr>result = 0, buf = ubuf, pos = upos, size_rd = usize,
           pnum = page_of_pos dev upos, pages = pgvec_virt dev, user = um\<rparr>
          polls)
   \<and> (0 < size_rd st \<and> pnum st = gp_cnt \<longrightarrow>
      read_outer True dev gp_cnt st polls = Some (Inr (result st), st, polls))
   \<and> (0 < size_rd s \<and> pnum s \<noteq> gp_cnt
        \<and> snd (copy_to_user (user s) (buf s) (step_src s)) = 0 \<longrightarrow>
      (\<exists>s'. read_step dev s = Inr s' \<and> 0 < step_len s
          \<and> result s' = result s + step_len s
          \<and> map (user s') [buf s..<buf s + step_len s] = map Some (step_src s)
          \<and> read_outer True dev gp_cnt s polls = read_outer True dev gp_cnt s' polls))
   \<and> (\<exists>ret st'. cx88sdr_read dev True um ubuf usize upos gp polls = Some (ret, st', polls)
        \<and> ((ret = Inl EFAULT \<and> 0 < size_rd st' \<and> pnum st' \<noteq> gp_cnt_last_page gp
             \<and> snd (copy_to_user (user st') (buf st') (step_src st')) \<noteq> 0)
           \<or> (ret = Inr (result st') \<and> result st' = pos st' - upos \<and> upos \<le> pos st'
               \<and> size_rd st' + result st' = usize
               \<and> pnum st' = page_of_pos dev (pos st')
               \<and> (size_rd st' = 0 \<or> pnum st' = gp_cnt_last_page gp))))"
proof (intro conjI impI)
  assume "page_of_pos dev upos = gp_cnt_last_page gp"
  then show "cx88sdr_read dev True um ubuf usize upos gp polls =
        Some (Inr 0,
              \<lparr>result = 0, buf = ubuf, pos = upos, size_rd = usize,
               pnum = page_of_pos dev upos, pages = pgvec_virt dev, user = um\<rparr>,
              polls)"
    by (simp add: cx88sdr_read_def Let_def)
next
  assume "page_of_pos dev upos \<noteq> gp_cnt_last_page gp"
  then show "cx88sdr_read dev True um ubuf usize upos gp polls =
        read_outer True dev (gp_cnt_last_page gp)
          \<lparr>result = 0, buf = ubuf, pos = upos, size_rd = usize,
           pnum = page_of_pos dev upos, pages = pgvec_virt dev, user = um\<rparr>
          polls"
    by (simp add: cx88sdr_read_def Let_def)
next
  assume "0 < size_rd st \<and> pnum st = gp_cnt"
  then show "read_outer True dev gp_cnt st polls = Some (Inr (result st), st, polls)"
    by (simp add: read_outer_stalled)
next
  assume a: "0 < size_rd s \<and> pnum s \<noteq> gp_cnt
        \<and> snd (copy_to_user (user s) (buf s) (step_src s)) = 0"
  then obtain s' where s': "read_step dev s = Inr s'" "result s' = result s + step_len s"
      "map (user s') [buf s..<buf s + step_len s] = map Some (step_src s)"
    using read_step_copies [of s dev] by blast
  from a s'(1) have "read_outer True dev gp_cnt s polls = read_outer True dev gp_cnt s' polls"
    by (intro read_outer_step) simp_all
  moreover from a have "0 < step_len s"
    by (simp add: step_len_def Let_def PAGE_SIZE_def)
  ultimately show "\<exists>s'. read_step dev s = Inr s' \<and> 0 < step_len s
          \<and> result s' = result s + step_len s
          \<and> map (user s') [buf s..<buf s + step_len s] = map Some (step_src s)
          \<and> read_outer True dev gp_cnt s polls = read_outer True dev gp_cnt s' polls"
    using s' by blast
next
  show "\<exists>ret st'. cx88sdr_read dev True um ubuf usize upos gp polls = Some (ret, st', polls)
        \<and> ((ret = Inl EFAULT \<and> 0 < size_rd st' \<and> pnum st' \<noteq> gp_cnt_last_page gp
             \<and> snd (copy_to_user (user st') (buf st') (step_src st')) \<noteq> 0)
           \<or> (ret = Inr (result st') \<and> result st' = pos st' - upos \<and> upos \<le> pos st'
               \<and> size_rd st' + result st' = usize
               \<and> pnum st' = page_of_pos dev (pos st')
               \<and> (size_rd st' = 0 \<or> pnum st' = gp_cnt_last_page gp)))"
    by (rule cx88sdr_read_summary)
qed


lemma page_of_pos_example_0: "page_of_pos example_dev 0 = 0"
  by (simp add: page_of_pos_def example_dev_def)

lemma page_of_pos_example_4096: "page_of_pos example_dev 4096 = 1"
  by (simp add: page_of_pos_def example_dev_def VBI_DMA_SIZE_def PAGE_SHIFT_def
        VBI_DMA_PAGES_eq)

text \<open>
  A reader on page 0 with the counter at 2 asks for 8192 bytes in mapped memory: it gets the
  4096 bytes of page 0 and stops on the producer's page 1. A state with 4096 bytes copied
  and the reader on the producer's page returns 4096. With the counter at 1 a reader at
  position 0 is on the producer's page at entry and the read of 10 bytes returns 0.
\<close>

theorem nonblocking_read_witness:
  "(\<exists>st'. cx88sdr_read example_dev True (\<lambda>a. Some 0) 0 8192 0 2 []
            = Some (Inr 4096, st', [])
        \<and> pos st' = 4096 \<and> size_rd st' = 4096)
   \<and> read_outer True example_dev 1 fault_state [] = Some (Inr 4096, fault_state, [])
   \<and> cx88sdr_read example_dev True Map.empty 0 10 0 1 [] =
        Some (Inr 0,
              \<lparr>result = 0, buf = 0, pos = 0, size_rd = 10,
               pnum = page_of_pos example_dev 0, pages = pgvec_virt example_dev,
               user = Map.empty\<rparr>,
              [])"
proof (intro conjI)
  let ?um = "(\<lambda>a. Some 0) :: user_mem"
  let ?s = "\<lparr>result = 0, buf = 0, pos = 0, size_rd = 8192,
              pnum = page_of_pos example_dev 0, pages = pgvec_virt example_dev,
              user = ?um\<rparr>"
  have g: "gp_cnt_last_page 2 = 1"
    by (simp add: gp_cnt_last_page_def)
  have len: "step_len ?s = 4096"
    by (simp add: step_len_def PAGE_SIZE_eq)
  have ok: "snd (copy_to_user (user ?s) (buf ?s) (step_src ?s)) = 0"
    by (rule copy_to_user_mapped) simp
  have ne: "page_of_pos example_dev 0 \<noteq> gp_cnt_last_page 2"
    by (simp add: g page_of_pos_example_0)
  have start: "cx88sdr_read example_dev True ?um 0 8192 0 2 [] =
      read_outer True example_dev 1 ?s []"
    using nonblocking_read [where dev = example_dev and upos = 0 and gp = 2 and um = ?um
        and ubuf = 0 and usize = 8192 and polls = "[]", THEN conjunct2, THEN conjunct1] ne
    by (simp add: g)
  have h: "0 < size_rd ?s \<and> pnum ?s \<noteq> 1
      \<and> snd (copy_to_user (user ?s) (buf ?s) (step_src ?s)) = 0"
    using ok by (simp add: page_of_pos_example_0)
  from nonblocking_read [where dev = example_dev and s = ?s and gp_cnt = 1 and polls = "[]",
      THEN conjunct2, THEN conjunct2, THEN conjunct2, THEN conjunct1] h
  obtain s' where s': "read_step example_dev ?s = Inr s'"
      "result s' = result ?s + step_len ?s"
      "read_outer True example_dev 1 ?s [] = read_outer True example_dev 1 s' []"
    by blast
  note r = read_step_Inr [OF s'(1)]
  from r(1) len have v1: "pos s' = 4096"
    by simp
  from r(3) len have v2: "size_rd s' = 4096"
    by simp
  have v3: "pnum s' = 1"
    unfolding r(4) v1 by (rule page_of_pos_example_4096)
  note v = v1 v2 v3
  then have "0 < size_rd s' \<and> pnum s' = 1"
    by simp
  with nonblocking_read [where dev = example_dev and st = s' and gp_cnt = 1 and polls = "[]",
      THEN conjunct2, THEN conjunct2, THEN conjunct1]
  have "read_outer True example_dev 1 s' [] = Some (Inr (result s'), s', [])"
    by blast
  with start s' len v
  show "\<exists>st'. cx88sdr_read example_dev True ?um 0 8192 0 2 [] = Some (Inr 4096, st', [])
        \<and> pos st' = 4096 \<and> size_rd st' = 4096"
    by simp
next
  have "0 < size_rd fault_state \<and> pnum fault_state = 1"
    by (simp add: fault_state_def)
  with nonblocking_read [where dev = example_dev and st = fault_state and gp_cnt = 1
      and polls = "[]", THEN conjunct2, THEN conjunct2, THEN conjunct1]
  have "read_outer True example_dev 1 fault_state []
      = Some (Inr (result fault_state), fault_state, [])"
    by blast
  then show "read_outer True example_dev 1 fault_state [] = Some (Inr 4096, fault_state, [])"
    by (simp add: fault_state_def)
next
  have "page_of_pos example_dev 0 = gp_cnt_last_page 1"
    by (simp add: page_of_pos_example_0 gp_cnt_last_page_def)
  with nonblocking_read [where dev = example_dev and upos = 0 and gp = 1
      and um = Map.empty and ubuf = 0 and usize = 10 and polls = "[]", THEN conjunct1]
  show "cx88sdr_read example_dev True Map.empty 0 10 0 1 [] =
        Some (Inr 0,
              \<lparr>result = 0, buf = 0, pos = 0, size_rd = 10,
               pnum = page_of_pos example_dev 0, pages = pgvec_virt example_dev,
               user = Map.empty\<rparr>,
              [])"
    by blast
qed


lemma step_len_copy_state: "step_len copy_state = 2"
  by (simp add: step_len_def copy_state_def PAGE_SIZE_eq)

lemma step_src_copy_state: "step_src copy_state = [7, 7]"
  by (simp add: step_src_def step_len_copy_state upt_rec) (simp add: copy_state_def)

text \<open>
  Two bytes of value 7 at the end of page 3 reach the user buffer and are zero afterwards.
\<close>

theorem read_step_zeroes_witness:
  "snd (copy_to_user (user copy_state) (buf copy_state) (step_src copy_state)) = 0
   \<and> (\<exists>st'. read_step example_dev copy_state = Inr st'
        \<and> pos st' = 4096
        \<and> map (user st') [16..<18] = [Some 7, Some 7]
        \<and> map (pages st' 3) [4094..<4096] = replicate 2 0)"
proof -
  have h: "snd (copy_to_user (user copy_state) (buf copy_state) (step_src copy_state)) = 0"
    by (simp add: step_src_copy_state) (simp add: copy_state_def)
  have v: "pos copy_state = 4094" "buf copy_state = 16" "unat (pnum copy_state) = 3"
    by (simp_all add: copy_state_def)
  from read_step_zeroes [OF h, of example_dev] h show ?thesis
    by (simp add: step_len_copy_state step_src_copy_state v PAGE_SIZE_eq)
qed

lemma step_src_fault_state: "step_src fault_state = [7, 7, 7]"
proof -
  have "step_len fault_state = 3"
    by (simp add: step_len_def fault_state_def PAGE_SIZE_eq)
  then show ?thesis
    by (simp add: step_src_def upt_rec) (simp add: fault_state_def)
qed

text \<open>
  A call that has copied 4096 bytes and then meets an unmapped user address returns
  \<open>EFAULT\<close>, not 4096.
\<close>

theorem read_fault_aborts_witness:
  "0 < size_rd fault_state \<and> pnum fault_state \<noteq> 5
   \<and> snd (copy_to_user (user fault_state) (buf fault_state) (step_src fault_state)) \<noteq> 0
   \<and> result fault_state = 4096
   \<and> read_outer True example_dev 5 fault_state [] = Some (Inl EFAULT, fault_state, [])"
proof -
  have a: "0 < size_rd fault_state" and b: "pnum fault_state \<noteq> 5"
    by (simp_all add: fault_state_def)
  have c: "copy_to_user (user fault_state) (buf fault_state) (step_src fault_state)
           = (user fault_state, 3)"
    by (simp add: step_src_fault_state) (simp add: fault_state_def)
  then have d: "snd (copy_to_user (user fault_state) (buf fault_state) (step_src fault_state))
           \<noteq> 0"
    by simp
  from read_fault_aborts [OF a b d, of True example_dev "[]"] a b c d show ?thesis
    by (simp add: fault_state_def)
qed


end
